theory Spec2Isabelle
  imports Complex_Main
begin

section \<open>Pump.fun trading bot: the decision logic of script.mjs\<close>

text \<open>
  The development embeds the parts of \<^verbatim>\<open>src/script.mjs\<close> that decide what is sold and
  when: \<^verbatim>\<open>fetchSPLTokens\<close>, \<^verbatim>\<open>sellTokens\<close>, \<^verbatim>\<open>apiRequest\<close>, \<^verbatim>\<open>monitorTrade\<close> and the
  message handler of \<^verbatim>\<open>simulateTrade\<close>.

  Conventions of the embedding:
  \<^item> JavaScript numbers that carry amounts, market caps and delays are \<^typ>\<open>real\<close>: the
    arithmetic is exact, rounding of IEEE doubles is not modelled. Where the source divides
    by a value that can be zero the three non-finite outcomes are written out.
  \<^item> \<^verbatim>\<open>Date.now()\<close> is an \<^typ>\<open>int\<close> of milliseconds; every read of the clock is an input.
  \<^item> Everything the network answers (the RPC node, the trade API, the quote feed) and every
    key the operator presses is an input of the function that consumes it.
  \<^item> A call of \<^verbatim>\<open>sellTokens(mint, f)\<close> made by the monitor is recorded as the fraction
    \<open>f\<close> appended to the field \<open>sells\<close> of the monitor state.
\<close>

subsection \<open>Wallet inventory and \<^verbatim>\<open>sellTokens\<close>\<close>

record token =
  mint :: string
  amount :: real

datatype log =
    LogFetchError
  | LogSelling real string
  | LogSold real string string
  | LogSkipping string

text \<open>
  \<^verbatim>\<open>fetchSPLTokens\<close> (lines 208-222). The argument is what
  \<^verbatim>\<open>getTokenAccountsByOwner\<close> and the decoding deliver: \<open>None\<close> when either throws,
  otherwise the accounts as pairs of mint and raw \<^verbatim>\<open>u64\<close> amount. The raw amount is
  divided by \<open>10 ** 6\<close> and only tokens with \<open>amount > 1\<close> are kept.
\<close>

definition fetchSPLTokens :: "(string \<times> nat) list option \<Rightarrow> log list \<times> token list" where
  "fetchSPLTokens rpc =
     (case rpc of
        None \<Rightarrow> ([LogFetchError], [])
      | Some accounts \<Rightarrow>
          ([], filter (\<lambda>t. amount t > 1)
                 (map (\<lambda>(m, raw). \<lparr>mint = m, amount = real raw / 10 ^ 6\<rparr>) accounts)))"

text \<open>
  The value a call of \<^verbatim>\<open>sellTokens\<close> returns: \<^verbatim>\<open>undefined\<close> when the function falls off
  its end, otherwise the \<^verbatim>\<open>txHash\<close> of \<^verbatim>\<open>pumpFunSell\<close>, which is \<open>None\<close> for
  \<^verbatim>\<open>null\<close> (\<^verbatim>\<open>pumpFunSell\<close> catches every failure of the API and returns \<^verbatim>\<open>null\<close>, so the
  \<^verbatim>\<open>catch\<close> of lines 238-240 has nothing to catch).
\<close>

datatype sell_return = Undefined | TxHash "string option"

record sell_result =
  orders :: "real list"
  logs :: "log list"
  returned :: sell_return

text \<open>The truthiness test \<^verbatim>\<open>if (txHash)\<close>: a non-empty string.\<close>

definition truthy_hash :: "string option \<Rightarrow> bool" where
  "truthy_hash h = (case h of None \<Rightarrow> False | Some s \<Rightarrow> s \<noteq> [])"

text \<open>
  The \<^verbatim>\<open>for\<close> loop of lines 226-248. \<open>tx\<close> is the answer of \<^verbatim>\<open>pumpFunSell\<close> to the one
  order the loop can submit; \<open>orders\<close> lists the amounts handed to \<^verbatim>\<open>pumpFunSell\<close>.
\<close>

fun sellTokens_loop :: "token list \<Rightarrow> string \<Rightarrow> real \<Rightarrow> string option \<Rightarrow> sell_result" where
  "sellTokens_loop [] m sellPercentage tx = \<lparr>orders = [], logs = [], returned = Undefined\<rparr>"
| "sellTokens_loop (t # ts) m sellPercentage tx =
     (if mint t = m then
        (let amountToSell = amount t * sellPercentage in
         if amountToSell \<ge> 1 then
           \<lparr>orders = [amountToSell],
            logs = LogSelling amountToSell m #
                   (if truthy_hash tx then [LogSold amountToSell m (the tx)] else []),
            returned = TxHash tx\<rparr>
         else
           \<lparr>orders = [], logs = [LogSkipping m], returned = Undefined\<rparr>)
      else sellTokens_loop ts m sellPercentage tx)"

definition sellTokens :: "(string \<times> nat) list option \<Rightarrow> string \<Rightarrow> real \<Rightarrow> string option \<Rightarrow> sell_result" where
  "sellTokens rpc m sellPercentage tx =
     (let (l, tokens) = fetchSPLTokens rpc;
          r = sellTokens_loop tokens m sellPercentage tx
      in r\<lparr>logs := l @ logs r\<rparr>)"

subsection \<open>\<^verbatim>\<open>apiRequest\<close>\<close>

text \<open>
  What one \<^verbatim>\<open>axios.post\<close> settles to: the response data, an error that carries a response
  (its status and the numeric value of its \<^verbatim>\<open>retry-after\<close> header, \<open>None\<close> when the
  header is absent or not a number, so that the product with 1000 is \<^verbatim>\<open>NaN\<close>), or an
  error without a response.
\<close>

datatype response =
    Success string
  | HttpError nat "real option"
  | NoResponse

datatype api_outcome = Returned string | Threw response | ReturnedUndefined

record api_result =
  outcome :: api_outcome
  attempts :: nat
  waits :: "real list"

definition API_RETRY_LIMIT :: int where
  "API_RETRY_LIMIT = 5"

definition BASE_API_DELAY :: real where
  "BASE_API_DELAY = 1000"

text \<open>
  Line 146, \<^verbatim>\<open>headers['retry-after'] * 1000 || delay\<close>: the product when it is truthy
  (a number other than zero), the current delay otherwise.
\<close>

definition retryAfter :: "real option \<Rightarrow> real \<Rightarrow> real" where
  "retryAfter header delay =
     (case header of
        None \<Rightarrow> delay
      | Some h \<Rightarrow> if h * 1000 = 0 then delay else h * 1000)"

text \<open>The value of \<^verbatim>\<open>delay\<close> after the \<^verbatim>\<open>catch\<close> block has looked at the error.\<close>

definition delay_after :: "response \<Rightarrow> real \<Rightarrow> real" where
  "delay_after r delay =
     (case r of
        HttpError status header \<Rightarrow> if status = 429 then retryAfter header delay else delay
      | _ \<Rightarrow> delay)"

text \<open>
  The \<^verbatim>\<open>while\<close> loop of lines 137-159. \<open>env k\<close> is what the request of attempt number
  \<open>k\<close> (counted from 0) settles to; \<open>ws\<close> collects the delays slept so far.
\<close>

function apiRequest_loop :: "(nat \<Rightarrow> response) \<Rightarrow> int \<Rightarrow> nat \<Rightarrow> real \<Rightarrow> real list \<Rightarrow> api_result" where
  "apiRequest_loop env retries attempt delay ws =
     (if int attempt < retries then
        (case env attempt of
           Success d \<Rightarrow> \<lparr>outcome = Returned d, attempts = attempt + 1, waits = ws\<rparr>
         | e \<Rightarrow>
            (let delay' = delay_after e delay in
             if int (attempt + 1) \<ge> retries then
               \<lparr>outcome = Threw e, attempts = attempt + 1, waits = ws\<rparr>
             else apiRequest_loop env retries (attempt + 1) (delay' * 2) (ws @ [delay'])))
      else \<lparr>outcome = ReturnedUndefined, attempts = attempt, waits = ws\<rparr>)"
  by pat_completeness auto
termination
  by (relation "measure (\<lambda>(env, retries, attempt, delay, ws). nat (retries - int attempt))") auto

definition apiRequest :: "(nat \<Rightarrow> response) \<Rightarrow> api_result" where
  "apiRequest env = apiRequest_loop env API_RETRY_LIMIT 0 BASE_API_DELAY []"

declare apiRequest_loop.simps [simp del]

text \<open>An attempt fails when its request does not settle to a response.\<close>

definition is_failure :: "response \<Rightarrow> bool" where
  "is_failure r = (case r of Success d \<Rightarrow> False | _ \<Rightarrow> True)"

text \<open>
  The delays slept between the attempts, as the loop computes them: the delay after attempt
  \<open>k\<close> is \<open>delay_after\<close> of that attempt's error and the current value of \<^verbatim>\<open>delay\<close>,
  which is \<^verbatim>\<open>BASE_API_DELAY\<close> at first and twice the delay last slept afterwards.
\<close>

definition backoff :: "(nat \<Rightarrow> response) \<Rightarrow> real list \<Rightarrow> bool" where
  "backoff env ws =
     (\<forall>k < length ws. ws ! k = delay_after (env k) (if k = 0 then BASE_API_DELAY else 2 * ws ! (k - 1)))"

text \<open>
  The delay after a failed attempt as the specification words it: on a 429 the server's
  retry delay whenever the header is there, the current backoff value otherwise.
\<close>

definition claimed_wait :: "response \<Rightarrow> real \<Rightarrow> real" where
  "claimed_wait r delay =
     (case r of
        HttpError status (Some h) \<Rightarrow> if status = 429 then h * 1000 else delay
      | _ \<Rightarrow> delay)"

text \<open>
  Three servers: one that answers 429 with \<^verbatim>\<open>Retry-After: 0\<close> and then succeeds, one that
  asks for 3 seconds and then stays unreachable, one that asks for 3 seconds, fails once more
  and then succeeds.
\<close>

fun retry_after_zero :: "nat \<Rightarrow> response" where
  "retry_after_zero 0 = HttpError 429 (Some 0)"
| "retry_after_zero (Suc k) = Success ''ok''"

fun limited_then_down :: "nat \<Rightarrow> response" where
  "limited_then_down 0 = HttpError 429 (Some 3)"
| "limited_then_down (Suc k) = NoResponse"

fun limited_then_ok :: "nat \<Rightarrow> response" where
  "limited_then_ok 0 = HttpError 429 (Some 3)"
| "limited_then_ok (Suc 0) = HttpError 500 None"
| "limited_then_ok (Suc (Suc k)) = Success ''ok''"

subsection \<open>The position monitor \<^verbatim>\<open>monitorTrade\<close>\<close>

definition SELL_TIMEOUT :: int where
  "SELL_TIMEOUT = 2 * 60 * 1000"

definition MONITOR_INTERVAL :: int where
  "MONITOR_INTERVAL = 5 * 1000"

definition PROFIT_TARGET_2 :: real where
  "PROFIT_TARGET_2 = 1.25"

text \<open>The object \<^verbatim>\<open>getTokenInfoFromWebSocket\<close> resolves to; \<^verbatim>\<open>null\<close> is \<open>None\<close>.\<close>

record tokenInfo =
  ticker :: string
  marketcap :: real
  bondingCurve :: real

text \<open>
  Line 259 divides by \<^verbatim>\<open>initialMarketCap\<close>. For a divisor of zero JavaScript gives
  \<^verbatim>\<open>Infinity\<close>, \<^verbatim>\<open>-Infinity\<close> or \<^verbatim>\<open>NaN\<close> by the sign of the numerator, where HOL's
  division would give 0; the comparisons of lines 267 and 272 are false on \<^verbatim>\<open>NaN\<close>.
\<close>

datatype jsnum = Finite real | PosInfinity | NegInfinity | NaN

definition marketCapChange :: "real \<Rightarrow> real \<Rightarrow> jsnum" where
  "marketCapChange mc initialMarketCap =
     (if initialMarketCap \<noteq> 0 then Finite ((mc - initialMarketCap) / initialMarketCap * 100)
      else if mc > 0 then PosInfinity
      else if mc < 0 then NegInfinity
      else NaN)"

fun js_ge :: "jsnum \<Rightarrow> real \<Rightarrow> bool" where
  "js_ge (Finite x) y = (x \<ge> y)"
| "js_ge PosInfinity y = True"
| "js_ge NegInfinity y = False"
| "js_ge NaN y = False"

fun js_le :: "jsnum \<Rightarrow> real \<Rightarrow> bool" where
  "js_le (Finite x) y = (x \<le> y)"
| "js_le PosInfinity y = False"
| "js_le NegInfinity y = True"
| "js_le NaN y = False"

text \<open>
  The three module-level override flags (lines 76-78) and the key handlers that set them
  (lines 412-425).
\<close>

record flags =
  resetTimer :: bool
  continueTrade :: bool
  sellImmediately :: bool

datatype key = KeyR | KeyC | KeyS

fun press :: "key \<Rightarrow> 'a flags_scheme \<Rightarrow> 'a flags_scheme" where
  "press KeyR s = s\<lparr>resetTimer := True\<rparr>"
| "press KeyC s = s\<lparr>continueTrade := True\<rparr>"
| "press KeyS s = s\<lparr>sellImmediately := True\<rparr>"

definition press_all :: "key list \<Rightarrow> 'a flags_scheme \<Rightarrow> 'a flags_scheme" where
  "press_all ks s = fold press ks s"

text \<open>
  The state of one run of \<^verbatim>\<open>monitorTrade\<close>: the flags, the local variables
  \<^verbatim>\<open>endTime\<close> and \<^verbatim>\<open>lastMarketCap\<close>, and the fractions of the \<^verbatim>\<open>sellTokens\<close> calls made
  so far, oldest first. What \<^verbatim>\<open>sellTokens\<close> returns is discarded by the monitor and it
  does not throw, so the outcome of a sale has no influence on the control flow.
\<close>

record monitor_state = flags +
  endTime :: int
  lastMarketCap :: real
  sells :: "real list"

text \<open>
  The inputs of one pass through the \<^verbatim>\<open>while\<close> loop:
  \<^item> \<open>t_loop\<close>: the clock read by the loop condition (line 256);
  \<^item> \<open>pressed\<close>: the keys pressed since the flags were last read and before they are read
    in this pass (during the preceding sleep, the wait for the quote, or the sales of lines
    269 and 284; the flags are only read from line 288 on, and a key only sets a flag);
  \<^item> \<open>info\<close>: the quote of line 257;
  \<^item> \<open>t_reset\<close>: the clock read by line 290, when it is reached;
  \<^item> \<open>pressed_selling\<close>: the keys pressed while the sale of line 302 is awaited;
  \<^item> \<open>t_exit\<close>: the clock read by line 311, when the loop ends in this pass.
\<close>

record iteration =
  t_loop :: int
  pressed :: "key list"
  info :: "tokenInfo option"
  t_reset :: int
  pressed_selling :: "key list"
  t_exit :: int

datatype control = Continue | Break

text \<open>Lines 267-280; \<open>sbc\<close> is \<^verbatim>\<open>SELL_BONDING_CURVE_PROGRESS\<close>, read from the environment.\<close>

definition primary_branch :: "real \<Rightarrow> real \<Rightarrow> tokenInfo \<Rightarrow> monitor_state \<Rightarrow> control \<times> monitor_state" where
  "primary_branch sbc initialMarketCap q s =
     (let change = marketCapChange (marketcap q) initialMarketCap in
      if js_ge change 25 then
        (Continue, s\<lparr>sells := sells s @ [0.50], lastMarketCap := marketcap q,
                     continueTrade := True\<rparr>)
      else if js_le change (- 10) then (Break, s\<lparr>sells := sells s @ [1.00]\<rparr>)
      else if bondingCurve q \<ge> sbc then (Break, s\<lparr>sells := sells s @ [0.75]\<rparr>)
      else (Continue, s))"

text \<open>Lines 282-286.\<close>

definition milestone :: "tokenInfo \<Rightarrow> monitor_state \<Rightarrow> monitor_state" where
  "milestone q s =
     (if marketcap q > lastMarketCap s * PROFIT_TARGET_2
      then s\<lparr>sells := sells s @ [0.75], lastMarketCap := marketcap q\<rparr>
      else s)"

text \<open>Lines 288-292.\<close>

definition reset_check :: "int \<Rightarrow> monitor_state \<Rightarrow> monitor_state" where
  "reset_check now s =
     (if resetTimer s then s\<lparr>endTime := now + SELL_TIMEOUT, resetTimer := False\<rparr> else s)"

text \<open>Lines 294-305.\<close>

definition exit_checks :: "key list \<Rightarrow> monitor_state \<Rightarrow> control \<times> monitor_state" where
  "exit_checks late s =
     (if continueTrade s then (Break, s\<lparr>continueTrade := False\<rparr>)
      else if sellImmediately s then
        (Break, (press_all late (s\<lparr>sells := sells s @ [0.75]\<rparr>))\<lparr>sellImmediately := False\<rparr>)
      else (Continue, s))"

text \<open>The body of the loop, lines 257-308.\<close>

definition body :: "real \<Rightarrow> real \<Rightarrow> iteration \<Rightarrow> monitor_state \<Rightarrow> control \<times> monitor_state" where
  "body sbc initialMarketCap it s =
     (case info it of
        None \<Rightarrow> (Continue, s)
      | Some q \<Rightarrow>
          (case primary_branch sbc initialMarketCap q s of
             (Break, s1) \<Rightarrow> (Break, s1)
           | (Continue, s1) \<Rightarrow>
               exit_checks (pressed_selling it) (reset_check (t_reset it) (milestone q s1))))"

text \<open>Lines 311-314, with the clock read there; the result keeps that reading.\<close>

definition after_loop :: "int \<Rightarrow> monitor_state \<Rightarrow> int \<times> monitor_state" where
  "after_loop now s = (now, if now \<ge> endTime s then s\<lparr>sells := sells s @ [0.75]\<rparr> else s)"

text \<open>
  The loop over the passes that the environment supplies. \<open>None\<close>: the passes are used up
  and the monitor is still polling. Nothing in the source bounds the number of passes (a
  reset at every pass keeps the loop alive), and a quote that never resolves suspends the
  monitor for good, so its termination is a property of the inputs.
\<close>

fun monitor_loop :: "real \<Rightarrow> real \<Rightarrow> iteration list \<Rightarrow> monitor_state \<Rightarrow> (int \<times> monitor_state) option" where
  "monitor_loop sbc initialMarketCap [] s = None"
| "monitor_loop sbc initialMarketCap (it # its) s =
     (let s0 = press_all (pressed it) s in
      if t_loop it < endTime s0 then
        (case body sbc initialMarketCap it s0 of
           (Break, s') \<Rightarrow> Some (after_loop (t_exit it) s')
         | (Continue, s') \<Rightarrow> monitor_loop sbc initialMarketCap its s')
      else Some (after_loop (t_exit it) s0))"

text \<open>
  \<^verbatim>\<open>monitorTrade\<close>: \<open>now\<close> is the clock read by line 252 and \<open>g\<close> the flags as the
  run finds them. The parameters \<^verbatim>\<open>mint\<close> and \<^verbatim>\<open>initialBondingCurve\<close> and the constant
  \<^verbatim>\<open>tradeAllowedTime\<close> take no part in any decision.
\<close>

definition monitorTrade :: "real \<Rightarrow> real \<Rightarrow> int \<Rightarrow> flags \<Rightarrow> iteration list \<Rightarrow> (int \<times> monitor_state) option" where
  "monitorTrade sbc initialMarketCap now g its =
     monitor_loop sbc initialMarketCap its
       \<lparr>resetTimer = resetTimer g, continueTrade = continueTrade g,
        sellImmediately = sellImmediately g,
        endTime = now + SELL_TIMEOUT, lastMarketCap = initialMarketCap, sells = []\<rparr>"

text \<open>
  A clock that does not run backwards and a sleep of at least \<^verbatim>\<open>MONITOR_INTERVAL\<close> before
  the next pass: what \<^verbatim>\<open>Date.now()\<close> and \<^verbatim>\<open>setTimeout\<close> grant a list of passes.
\<close>

fun paced :: "int \<Rightarrow> iteration list \<Rightarrow> bool" where
  "paced now [] = True"
| "paced now (it # its) =
     (now \<le> t_loop it \<and> t_loop it \<le> t_exit it \<and> paced (t_loop it + MONITOR_INTERVAL) its)"

text \<open>A pass in which no key is pressed and no branch of lines 267-286 is taken.\<close>

definition quiet :: "real \<Rightarrow> real \<Rightarrow> real \<Rightarrow> iteration \<Rightarrow> bool" where
  "quiet sbc initialMarketCap lastCap it =
     (pressed it = [] \<and>
      (case info it of
         None \<Rightarrow> True
       | Some q \<Rightarrow>
           \<not> js_ge (marketCapChange (marketcap q) initialMarketCap) 25 \<and>
           \<not> js_le (marketCapChange (marketcap q) initialMarketCap) (- 10) \<and>
           \<not> bondingCurve q \<ge> sbc \<and>
           \<not> marketcap q > lastCap * PROFIT_TARGET_2))"

text \<open>Inputs for concrete runs: no flag set, and a pass with a quote and no key pressed.\<close>

definition no_flags :: flags where
  "no_flags = \<lparr>resetTimer = False, continueTrade = False, sellImmediately = False\<rparr>"

definition pass :: "int \<Rightarrow> real \<Rightarrow> real \<Rightarrow> int \<Rightarrow> iteration" where
  "pass t mc bc t' =
     \<lparr>t_loop = t, pressed = [],
      info = Some \<lparr>ticker = ''TKN'', marketcap = mc, bondingCurve = bc\<rparr>,
      t_reset = t', pressed_selling = [], t_exit = t'\<rparr>"

text \<open>
  The first \<open>n\<close> passes of a run that starts at clock 0 and checks the loop condition every
  \<open>d\<close> milliseconds, the market cap unchanged at 100.
\<close>

definition polls :: "int \<Rightarrow> nat \<Rightarrow> iteration list" where
  "polls d n = map (\<lambda>k. pass (d * int k) 100 5 (d * int k)) [0..<n]"




subsection \<open>The scanner: the message handler of \<^verbatim>\<open>simulateTrade\<close>\<close>

text \<open>The fields of a parsed feed message that the handler reads.\<close>

record message =
  channel :: string
  new_mint :: string

text \<open>
  \<^verbatim>\<open>cooldownActive\<close> (line 79) and the due times of the pending callbacks installed by
  line 371.
\<close>

record scanner_state =
  cooldownActive :: bool
  timers :: "int list"

datatype verdict =
    Ignored
  | ParseFailure
  | OtherChannel
  | NotEligible
  | BuyFailed
  | Monitored string real real

text \<open>
  Lines 373-385: \<open>q\<close> is the quote fetched for the candidate, \<open>buy\<close> what \<^verbatim>\<open>pumpFunBuy\<close>
  returns, \<open>max_bc\<close> is \<^verbatim>\<open>MAX_BONDING_CURVE_PROGRESS\<close>.
\<close>

definition evaluate :: "real \<Rightarrow> tokenInfo option \<Rightarrow> string option \<Rightarrow> string \<Rightarrow> verdict" where
  "evaluate max_bc q buy m =
     (case q of
        None \<Rightarrow> NotEligible
      | Some ti \<Rightarrow>
          if bondingCurve ti < max_bc then
            (if truthy_hash buy then Monitored m (marketcap ti) (bondingCurve ti) else BuyFailed)
          else NotEligible)"

text \<open>
  The handler of lines 365-387 for a message that arrives at time \<open>now\<close>; \<open>d\<close> is the
  parsed message, \<open>None\<close> when \<^verbatim>\<open>JSON.parse\<close> throws.
\<close>

definition on_message :: "real \<Rightarrow> int \<Rightarrow> message option \<Rightarrow> tokenInfo option \<Rightarrow> string option \<Rightarrow> scanner_state \<Rightarrow> scanner_state \<times> verdict" where
  "on_message max_bc now d q buy st =
     (if cooldownActive st then (st, Ignored)
      else
        (case d of
           None \<Rightarrow> (st, ParseFailure)
         | Some msg \<Rightarrow>
             if channel msg = ''new_pairs'' then
               (st\<lparr>cooldownActive := True, timers := timers st @ [now + 15000]\<rparr>,
                evaluate max_bc q buy (new_mint msg))
             else (st, OtherChannel)))"

text \<open>
  The callbacks of line 371 that are due at time \<open>now\<close> run: each sets
  \<^verbatim>\<open>cooldownActive\<close> to false. The callbacks run at their due time, before a message of
  the same instant is handled.
\<close>

definition fire_due :: "int \<Rightarrow> scanner_state \<Rightarrow> scanner_state" where
  "fire_due now st =
     (if \<exists>due \<in> set (timers st). due \<le> now
      then st\<lparr>cooldownActive := False, timers := filter (\<lambda>due. now < due) (timers st)\<rparr>
      else st)"

record event =
  arrival :: int
  payload :: "message option"
  quote :: "tokenInfo option"
  buy_result :: "string option"

fun scanner :: "real \<Rightarrow> event list \<Rightarrow> scanner_state \<Rightarrow> verdict list \<times> scanner_state" where
  "scanner max_bc [] st = ([], st)"
| "scanner max_bc (e # es) st =
     (let (st', v) = on_message max_bc (arrival e) (payload e) (quote e) (buy_result e)
                       (fire_due (arrival e) st);
          (vs, st'') = scanner max_bc es st'
      in (v # vs, st''))"

definition scanner_start :: scanner_state where
  "scanner_start = \<lparr>cooldownActive = False, timers = []\<rparr>"

text \<open>
  While the cooldown is active exactly one callback is pending, otherwise none: what holds of
  the states the scanner reaches from \<open>scanner_start\<close>.
\<close>

definition scanner_inv :: "scanner_state \<Rightarrow> bool" where
  "scanner_inv st = (if cooldownActive st then length (timers st) = 1 else timers st = [])"

text \<open>A new-listing event whose candidate has market cap 100.\<close>

definition listing :: "int \<Rightarrow> string \<Rightarrow> real \<Rightarrow> string option \<Rightarrow> event" where
  "listing t m bc buy =
     \<lparr>arrival = t, payload = Some \<lparr>channel = ''new_pairs'', new_mint = m\<rparr>,
      quote = Some \<lparr>ticker = ''TKN'', marketcap = 100, bondingCurve = bc\<rparr>,
      buy_result = buy\<rparr>"

section \<open>Properties\<close>

subsection \<open>\<^verbatim>\<open>sellTokens\<close>\<close>

text \<open>
  The loop acts on the first token of the fetched list whose mint matches, and on nothing
  when there is none.
\<close>

lemma sellTokens_loop_find:
  "sellTokens_loop ts m p tx =
     (case find (\<lambda>t. mint t = m) ts of
        None \<Rightarrow> \<lparr>orders = [], logs = [], returned = Undefined\<rparr>
      | Some t \<Rightarrow>
          if amount t * p \<ge> 1 then
            \<lparr>orders = [amount t * p],
             logs = LogSelling (amount t * p) m #
                    (if truthy_hash tx then [LogSold (amount t * p) m (the tx)] else []),
             returned = TxHash tx\<rparr>
          else \<lparr>orders = [], logs = [LogSkipping m], returned = Undefined\<rparr>)"
  by (induction ts) (simp_all add: Let_def)

lemma sellTokens_orders:
  "orders (sellTokens rpc m p tx) = orders (sellTokens_loop (snd (fetchSPLTokens rpc)) m p tx)"
  by (simp add: sellTokens_def Let_def split: prod.splits)

lemma sellTokens_returned:
  "returned (sellTokens rpc m p tx) = returned (sellTokens_loop (snd (fetchSPLTokens rpc)) m p tx)"
  by (simp add: sellTokens_def Let_def split: prod.splits)

lemma sellTokens_logs:
  "logs (sellTokens rpc m p tx) =
     fst (fetchSPLTokens rpc) @ logs (sellTokens_loop (snd (fetchSPLTokens rpc)) m p tx)"
  by (simp add: sellTokens_def Let_def split: prod.splits)

text \<open>
  Claim C7. Every amount \<^verbatim>\<open>sellTokens\<close> hands to \<^verbatim>\<open>pumpFunSell\<close> is at least 1. When
  the token is found among the fetched tokens and \<open>amountToSell = amount * sellPercentage\<close>
  is below 1, no order is submitted, the only log line is the skip message and the call
  returns \<^verbatim>\<open>undefined\<close>.
\<close>

theorem sellTokens_never_dust:
  "(\<forall>a \<in> set (orders (sellTokens rpc m p tx)). 1 \<le> a) \<and>
   (\<forall>t. find (\<lambda>t. mint t = m) (snd (fetchSPLTokens rpc)) = Some t \<longrightarrow> amount t * p < 1 \<longrightarrow>
      orders (sellTokens rpc m p tx) = [] \<and>
      logs (sellTokens rpc m p tx) = [LogSkipping m] \<and>
      returned (sellTokens rpc m p tx) = Undefined)"
proof (intro conjI allI impI ballI)
  fix a assume "a \<in> set (orders (sellTokens rpc m p tx))"
  then show "1 \<le> a"
    by (auto simp: sellTokens_orders sellTokens_loop_find split: option.splits if_splits)
next
  fix t
  assume f: "find (\<lambda>t. mint t = m) (snd (fetchSPLTokens rpc)) = Some t" and d: "amount t * p < 1"
  from f have rpc: "fst (fetchSPLTokens rpc) = []"
    by (cases rpc) (simp_all add: fetchSPLTokens_def)
  from f d show "orders (sellTokens rpc m p tx) = []"
    by (simp add: sellTokens_orders sellTokens_loop_find)
  from f d rpc show "logs (sellTokens rpc m p tx) = [LogSkipping m]"
    by (simp add: sellTokens_logs sellTokens_loop_find)
  from f d show "returned (sellTokens rpc m p tx) = Undefined"
    by (simp add: sellTokens_returned sellTokens_loop_find)
qed

theorem sellTokens_never_dust_witness:
  "orders (sellTokens (Some [(''A'', 1500000), (''B'', 9000000)]) ''A'' 0.5 (Some ''h'')) = [] \<and>
   logs (sellTokens (Some [(''A'', 1500000), (''B'', 9000000)]) ''A'' 0.5 (Some ''h'')) = [LogSkipping ''A''] \<and>
   orders (sellTokens (Some [(''A'', 1500000), (''B'', 9000000)]) ''B'' 0.5 (Some ''h'')) = [4.5]"
proof -
  have f: "find (\<lambda>t. mint t = ''A'') (snd (fetchSPLTokens (Some [(''A'', 1500000), (''B'', 9000000)])))
            = Some \<lparr>mint = ''A'', amount = 1.5\<rparr>"
    by (simp add: fetchSPLTokens_def)
  have d: "amount \<lparr>mint = ''A'', amount = 1.5\<rparr> * 0.5 < 1" by simp
  have o: "orders (sellTokens (Some [(''A'', 1500000), (''B'', 9000000)]) ''B'' 0.5 (Some ''h'')) = [4.5]"
    by (simp add: sellTokens_def fetchSPLTokens_def Let_def)
  from sellTokens_never_dust [of "Some [(''A'', 1500000), (''B'', 9000000)]" "''A''" "0.5" "Some ''h''"] f d o
  show ?thesis by blast
qed

text \<open>
  Claim C10. When every account the wallet holds for the mint (there may be none) carries
  at most 1 unit, the filter of \<^verbatim>\<open>fetchSPLTokens\<close> removes the token and \<^verbatim>\<open>sellTokens\<close>
  returns \<^verbatim>\<open>undefined\<close> with no order and no log line at all. The skip message is only
  logged for the mint asked for, and only when the wallet holds an account of it with more
  than 1 unit whose \<open>amountToSell\<close> is below 1.
\<close>

theorem sellTokens_unheld:
  "((\<forall>(m', raw) \<in> set accounts. m' = m \<longrightarrow> real raw / 10 ^ 6 \<le> 1) \<longrightarrow>
      sellTokens (Some accounts) m p tx = \<lparr>orders = [], logs = [], returned = Undefined\<rparr>) \<and>
   (LogSkipping m' \<in> set (logs (sellTokens rpc m p tx)) \<longrightarrow>
      m' = m \<and> (\<exists>accounts raw. rpc = Some accounts \<and> (m, raw) \<in> set accounts \<and>
                  real raw / 10 ^ 6 > 1 \<and> real raw / 10 ^ 6 * p < 1))"
proof -
  have excluded: "sellTokens (Some accounts) m p tx = \<lparr>orders = [], logs = [], returned = Undefined\<rparr>"
    if h: "\<forall>(m', raw) \<in> set accounts. m' = m \<longrightarrow> real raw / 10 ^ 6 \<le> 1"
  proof -
    have "find (\<lambda>t. mint t = m) (snd (fetchSPLTokens (Some accounts))) = None"
      using h by (fastforce simp: fetchSPLTokens_def find_None_iff)
    then show ?thesis
      by (simp add: sellTokens_def sellTokens_loop_find fetchSPLTokens_def Let_def)
  qed
  have skipped: "m' = m \<and> (\<exists>accounts raw. rpc = Some accounts \<and> (m, raw) \<in> set accounts \<and>
                  real raw / 10 ^ 6 > 1 \<and> real raw / 10 ^ 6 * p < 1)"
    if l: "LogSkipping m' \<in> set (logs (sellTokens rpc m p tx))"
  proof (cases rpc)
    case None
    with l show ?thesis by (simp add: sellTokens_def fetchSPLTokens_def Let_def)
  next
    case (Some accs)
    with l obtain t where f: "find (\<lambda>t. mint t = m) (snd (fetchSPLTokens (Some accs))) = Some t"
      and d: "\<not> amount t * p \<ge> 1" and m: "m' = m"
      by (auto simp: sellTokens_logs sellTokens_loop_find fetchSPLTokens_def
               split: option.splits if_splits)
    from f have "t \<in> set (snd (fetchSPLTokens (Some accs)))" "mint t = m"
      by (auto simp: find_Some_iff in_set_conv_nth)
    then obtain raw where "(m, raw) \<in> set accs" "amount t = real raw / 10 ^ 6" "amount t > 1"
      by (auto simp: fetchSPLTokens_def)
    with d m Some show ?thesis by (auto simp: not_le)
  qed
  from excluded skipped show ?thesis by blast
qed

theorem sellTokens_unheld_witness:
  "sellTokens (Some [(''A'', 1000000), (''B'', 9000000)]) ''A'' 0.5 (Some ''h'') =
     \<lparr>orders = [], logs = [], returned = Undefined\<rparr> \<and>
   LogSkipping ''A'' \<in> set (logs (sellTokens (Some [(''A'', 1500000)]) ''A'' 0.5 (Some ''h''))) \<and>
   (\<exists>accounts raw. Some [(''A'', 1500000)] = Some accounts \<and>
       (''A'', raw) \<in> set accounts \<and> real raw / 10 ^ 6 > 1 \<and> real raw / 10 ^ 6 * 0.5 < 1)"
proof -
  have h: "\<forall>(m', raw) \<in> set [(''A'', 1000000::nat), (''B'', 9000000)].
             m' = ''A'' \<longrightarrow> real raw / 10 ^ 6 \<le> 1"
    by simp
  have l: "LogSkipping ''A'' \<in> set (logs (sellTokens (Some [(''A'', 1500000)]) ''A'' 0.5 (Some ''h'')))"
    by (simp add: sellTokens_def fetchSPLTokens_def Let_def)
  from sellTokens_unheld [where accounts = "[(''A'', 1000000), (''B'', 9000000)]" and m = "''A''"
         and p = "0.5" and tx = "Some ''h''" and m' = "''A''" and rpc = "Some [(''A'', 1500000)]"] h l
  show ?thesis by blast
qed

subsection \<open>\<^verbatim>\<open>apiRequest\<close>\<close>

text \<open>One step of the loop, by what the attempt settles to and whether it was the last.\<close>

lemma apiRequest_loop_done:
  "\<not> int a < retries \<Longrightarrow>
   apiRequest_loop env retries a d ws = \<lparr>outcome = ReturnedUndefined, attempts = a, waits = ws\<rparr>"
  by (subst apiRequest_loop.simps) simp

lemma apiRequest_loop_success:
  "int a < retries \<Longrightarrow> env a = Success x \<Longrightarrow>
   apiRequest_loop env retries a d ws = \<lparr>outcome = Returned x, attempts = a + 1, waits = ws\<rparr>"
  by (subst apiRequest_loop.simps) simp

lemma apiRequest_loop_last:
  "int a < retries \<Longrightarrow> is_failure (env a) \<Longrightarrow> retries \<le> int (a + 1) \<Longrightarrow>
   apiRequest_loop env retries a d ws = \<lparr>outcome = Threw (env a), attempts = a + 1, waits = ws\<rparr>"
  by (subst apiRequest_loop.simps) (simp add: is_failure_def Let_def split: response.splits)

lemma apiRequest_loop_retry:
  "int a < retries \<Longrightarrow> is_failure (env a) \<Longrightarrow> int (a + 1) < retries \<Longrightarrow>
   apiRequest_loop env retries a d ws =
     apiRequest_loop env retries (a + 1) (delay_after (env a) d * 2) (ws @ [delay_after (env a) d])"
  by (subst apiRequest_loop.simps) (simp add: is_failure_def Let_def split: response.splits)

lemma apiRequest_loop_cases:
  assumes "int a < retries"
  obtains (success) x where "env a = Success x"
  | (last) "is_failure (env a)" "retries \<le> int (a + 1)"
  | (retry) "is_failure (env a)" "int (a + 1) < retries"
  using assms by (cases "env a"; cases "int (a + 1) < retries") (auto simp: is_failure_def)

lemma backoff_snoc:
  assumes "backoff env ws" and "d = (if length ws = 0 then BASE_API_DELAY else 2 * ws ! (length ws - 1))"
  shows "backoff env (ws @ [delay_after (env (length ws)) d])"
  unfolding backoff_def
proof (intro allI impI)
  fix k assume k: "k < length (ws @ [delay_after (env (length ws)) d])"
  show "(ws @ [delay_after (env (length ws)) d]) ! k =
        delay_after (env k) (if k = 0 then BASE_API_DELAY
                             else 2 * (ws @ [delay_after (env (length ws)) d]) ! (k - 1))"
  proof (cases "k < length ws")
    case True
    with assms(1) show ?thesis by (auto simp: backoff_def nth_append)
  next
    case False
    with k have "k = length ws" by simp
    with assms(2) show ?thesis by (auto simp: nth_append)
  qed
qed

lemma apiRequest_loop_waits:
  "int a < retries \<Longrightarrow> length ws = a \<Longrightarrow> backoff env ws \<Longrightarrow>
   d = (if a = 0 then BASE_API_DELAY else 2 * ws ! (a - 1)) \<Longrightarrow>
   backoff env (waits (apiRequest_loop env retries a d ws)) \<and>
   length (waits (apiRequest_loop env retries a d ws)) + 1 = attempts (apiRequest_loop env retries a d ws)"
proof (induction env retries a d ws rule: apiRequest_loop.induct)
  case (1 env retries attempt delay ws)
  from "1.prems"(1) show ?case
  proof (cases rule: apiRequest_loop_cases [where env = env])
    case (success x)
    with "1.prems" show ?thesis by (simp add: apiRequest_loop_success)
  next
    case last
    with "1.prems" show ?thesis by (simp add: apiRequest_loop_last)
  next
    case retry
    let ?w = "delay_after (env attempt) delay"
    have "delay = (if length ws = 0 then BASE_API_DELAY else 2 * ws ! (length ws - 1))"
      using "1.prems"(2,4) by simp
    from backoff_snoc [OF "1.prems"(3) this] have b: "backoff env (ws @ [?w])"
      using "1.prems"(2) by simp
    have d: "?w * 2 = (if attempt + 1 = 0 then BASE_API_DELAY else 2 * (ws @ [?w]) ! (attempt + 1 - 1))"
      using "1.prems"(2) by (simp add: nth_append)
    have l: "length (ws @ [?w]) = attempt + 1" using "1.prems"(2) by simp
    from retry have nf: "\<And>x. env attempt \<noteq> Success x" by (auto simp: is_failure_def)
    have ih: "backoff env (waits (apiRequest_loop env retries (attempt + 1) (?w * 2) (ws @ [?w]))) \<and>
          length (waits (apiRequest_loop env retries (attempt + 1) (?w * 2) (ws @ [?w]))) + 1 =
          attempts (apiRequest_loop env retries (attempt + 1) (?w * 2) (ws @ [?w]))"
    proof (cases "env attempt")
      case (Success x) with nf [of x] show ?thesis by blast
    next
      case (HttpError st h)
      show ?thesis
        using "1.IH"(1) [OF "1.prems"(1) HttpError refl] retry(2) l b d HttpError by simp
    next
      case NoResponse
      show ?thesis
        using "1.IH"(2) [OF "1.prems"(1) NoResponse refl] retry(2) l b d NoResponse by simp
    qed
    with retry "1.prems"(1) show ?thesis by (simp add: apiRequest_loop_retry)
  qed
qed

lemma apiRequest_loop_outcome:
  "int a < retries \<Longrightarrow>
   outcome (apiRequest_loop env retries a d ws) \<noteq> ReturnedUndefined \<and>
   (\<forall>x. outcome (apiRequest_loop env retries a d ws) = Returned x \<longrightarrow>
        env (attempts (apiRequest_loop env retries a d ws) - 1) = Success x) \<and>
   (\<forall>e. outcome (apiRequest_loop env retries a d ws) = Threw e \<longrightarrow>
        e = env (attempts (apiRequest_loop env retries a d ws) - 1) \<and> is_failure e \<and>
        int (attempts (apiRequest_loop env retries a d ws)) = retries) \<and>
   a < attempts (apiRequest_loop env retries a d ws) \<and>
   int (attempts (apiRequest_loop env retries a d ws)) \<le> retries \<and>
   (\<forall>k. a \<le> k \<and> k + 1 < attempts (apiRequest_loop env retries a d ws) \<longrightarrow> is_failure (env k))"
proof (induction env retries a d ws rule: apiRequest_loop.induct)
  case (1 env retries attempt delay ws)
  from "1.prems"(1) show ?case
  proof (cases rule: apiRequest_loop_cases [where env = env])
    case (success x)
    have eq: "apiRequest_loop env retries attempt delay ws =
            \<lparr>outcome = Returned x, attempts = attempt + 1, waits = ws\<rparr>"
      using "1.prems" success by (rule apiRequest_loop_success)
    show ?thesis unfolding eq using "1.prems" success by (intro conjI allI impI) auto
  next
    case last
    have eq: "apiRequest_loop env retries attempt delay ws =
            \<lparr>outcome = Threw (env attempt), attempts = attempt + 1, waits = ws\<rparr>"
      using "1.prems" last by (rule apiRequest_loop_last)
    show ?thesis unfolding eq using "1.prems" last by (intro conjI allI impI) auto
  next
    case retry
    let ?w = "delay_after (env attempt) delay"
    let ?r = "apiRequest_loop env retries (attempt + 1) (?w * 2) (ws @ [?w])"
    from retry have nf: "\<And>x. env attempt \<noteq> Success x" by (auto simp: is_failure_def)
    have ih: "outcome ?r \<noteq> ReturnedUndefined \<and>
      (\<forall>x. outcome ?r = Returned x \<longrightarrow> env (attempts ?r - 1) = Success x) \<and>
      (\<forall>e. outcome ?r = Threw e \<longrightarrow>
           e = env (attempts ?r - 1) \<and> is_failure e \<and> int (attempts ?r) = retries) \<and>
      attempt + 1 < attempts ?r \<and> int (attempts ?r) \<le> retries \<and>
      (\<forall>k. attempt + 1 \<le> k \<and> k + 1 < attempts ?r \<longrightarrow> is_failure (env k))"
    proof (cases "env attempt")
      case (Success x) with nf [of x] show ?thesis by blast
    next
      case (HttpError st h)
      show ?thesis
        using "1.IH"(1) [OF "1.prems"(1) HttpError refl] retry(2) HttpError by simp
    next
      case NoResponse
      show ?thesis
        using "1.IH"(2) [OF "1.prems"(1) NoResponse refl] retry(2) NoResponse by simp
    qed
    have eq: "apiRequest_loop env retries attempt delay ws = ?r"
      using "1.prems" retry by (rule apiRequest_loop_retry)
    from ih have lt: "attempt < attempts ?r" by linarith
    have fails: "is_failure (env k)" if k: "attempt \<le> k \<and> k + 1 < attempts ?r" for k
    proof (cases "k = attempt")
      case True with retry(1) show ?thesis by simp
    next
      case False
      with k have "attempt + 1 \<le> k \<and> k + 1 < attempts ?r" by linarith
      with ih show ?thesis by blast
    qed
    show ?thesis unfolding eq using ih lt fails by blast
  qed
qed

lemmas api_eval =
  apiRequest_def apiRequest_loop_retry apiRequest_loop_success apiRequest_loop_last
  is_failure_def API_RETRY_LIMIT_def BASE_API_DELAY_def delay_after_def retryAfter_def

lemma delay_after_cases:
  "delay_after r d =
     (case r of
        HttpError st (Some h) \<Rightarrow> if st = 429 \<and> h \<noteq> 0 then h * 1000 else d
      | _ \<Rightarrow> d)"
  by (simp add: delay_after_def retryAfter_def split: response.splits option.splits)

text \<open>
  Claim C9, as the code has it. \<^verbatim>\<open>apiRequest\<close> makes between one and five attempts and
  sleeps once between two consecutive attempts. The delay slept after a failed attempt is
  the current delay, 1000 ms at first and twice the delay last slept afterwards, unless the
  attempt was answered 429 with a \<^verbatim>\<open>retry-after\<close> header whose numeric value is not zero:
  then it is that value times 1000, and the doubling goes on from there. A returned value is
  the data of the last attempt, all attempts before it having failed. When all five attempts
  fail the error of the fifth is thrown.
\<close>

theorem apiRequest_backoff:
  "1 \<le> attempts (apiRequest env) \<and> attempts (apiRequest env) \<le> 5 \<and>
   length (waits (apiRequest env)) + 1 = attempts (apiRequest env) \<and>
   (\<forall>k < length (waits (apiRequest env)).
      waits (apiRequest env) ! k =
        (case env k of
           HttpError st (Some h) \<Rightarrow>
             if st = 429 \<and> h \<noteq> 0 then h * 1000
             else (if k = 0 then 1000 else 2 * waits (apiRequest env) ! (k - 1))
         | _ \<Rightarrow> (if k = 0 then 1000 else 2 * waits (apiRequest env) ! (k - 1)))) \<and>
   (\<forall>x. outcome (apiRequest env) = Returned x \<longrightarrow>
      env (attempts (apiRequest env) - 1) = Success x \<and>
      (\<forall>k. k + 1 < attempts (apiRequest env) \<longrightarrow> is_failure (env k))) \<and>
   ((\<forall>k < 5. is_failure (env k)) \<longrightarrow>
      outcome (apiRequest env) = Threw (env 4) \<and> attempts (apiRequest env) = 5)"
proof -
  let ?r = "apiRequest env"
  have lt: "int 0 < API_RETRY_LIMIT" by (simp add: API_RETRY_LIMIT_def)
  have o: "outcome ?r \<noteq> ReturnedUndefined"
    and ret: "\<And>x. outcome ?r = Returned x \<Longrightarrow> env (attempts ?r - 1) = Success x"
    and thr: "\<And>e. outcome ?r = Threw e \<Longrightarrow> e = env (attempts ?r - 1) \<and> int (attempts ?r) = API_RETRY_LIMIT"
    and lo: "0 < attempts ?r" and hi: "int (attempts ?r) \<le> API_RETRY_LIMIT"
    and fl: "\<And>k. k + 1 < attempts ?r \<Longrightarrow> is_failure (env k)"
    using apiRequest_loop_outcome [OF lt, of env BASE_API_DELAY "[]"]
    unfolding apiRequest_def by simp_all
  have "backoff env []" by (simp add: backoff_def)
  with apiRequest_loop_waits [OF lt, of "[]" env BASE_API_DELAY]
  have b: "backoff env (waits ?r)" and len: "length (waits ?r) + 1 = attempts ?r"
    unfolding apiRequest_def by simp_all
  have w: "waits ?r ! k =
        (case env k of
           HttpError st (Some h) \<Rightarrow>
             if st = 429 \<and> h \<noteq> 0 then h * 1000
             else (if k = 0 then 1000 else 2 * waits ?r ! (k - 1))
         | _ \<Rightarrow> (if k = 0 then 1000 else 2 * waits ?r ! (k - 1)))"
    if "k < length (waits ?r)" for k
    using b that unfolding backoff_def delay_after_cases BASE_API_DELAY_def by simp
  have allfail: "outcome ?r = Threw (env 4) \<and> attempts ?r = 5" if f: "\<forall>k < 5. is_failure (env k)"
  proof (cases "outcome ?r")
    case (Returned x)
    from ret [OF Returned] have "\<not> is_failure (env (attempts ?r - 1))" by (simp add: is_failure_def)
    moreover from lo hi have "attempts ?r - 1 < 5" by (simp add: API_RETRY_LIMIT_def)
    ultimately show ?thesis using f by blast
  next
    case (Threw e)
    from thr [OF Threw] have "e = env (attempts ?r - 1)" "attempts ?r = 5"
      by (simp_all add: API_RETRY_LIMIT_def)
    with Threw show ?thesis by simp
  next
    case ReturnedUndefined
    with o show ?thesis by simp
  qed
  from lo have "1 \<le> attempts ?r" by simp
  moreover from hi have "attempts ?r \<le> 5" by (simp add: API_RETRY_LIMIT_def)
  ultimately show ?thesis using len w ret fl allfail by blast
qed

theorem apiRequest_backoff_witness:
  "apiRequest limited_then_down =
     \<lparr>outcome = Threw NoResponse, attempts = 5, waits = [3000, 6000, 12000, 24000]\<rparr> \<and>
   apiRequest limited_then_ok =
     \<lparr>outcome = Returned ''ok'', attempts = 3, waits = [3000, 6000]\<rparr> \<and>
   waits (apiRequest limited_then_down) ! 1 = 2 * waits (apiRequest limited_then_down) ! 0 \<and>
   outcome (apiRequest limited_then_down) = Threw (limited_then_down 4) \<and>
   limited_then_ok (attempts (apiRequest limited_then_ok) - 1) = Success ''ok''"
proof -
  have f: "\<forall>k < 5. is_failure (limited_then_down k)"
  proof (intro allI impI)
    fix k :: nat show "is_failure (limited_then_down k)"
      by (cases k) (simp_all add: is_failure_def)
  qed
  have d: "apiRequest limited_then_down =
     \<lparr>outcome = Threw NoResponse, attempts = 5, waits = [3000, 6000, 12000, 24000]\<rparr>"
    by (simp add: api_eval eval_nat_numeral)
  have k: "apiRequest limited_then_ok =
     \<lparr>outcome = Returned ''ok'', attempts = 3, waits = [3000, 6000]\<rparr>"
    by (simp add: api_eval eval_nat_numeral)
  from apiRequest_backoff [of limited_then_down] apiRequest_backoff [of limited_then_ok] f d k
  show ?thesis by (simp add: eval_nat_numeral)
qed

text \<open>
  Claim C9 as stated fails for a 429 whose \<^verbatim>\<open>retry-after\<close> header is 0: the header is
  present, the claim has the client wait that delay (0 ms), and the code waits the current
  backoff value of 1000 ms, because line 146 takes the product \<open>0 * 1000\<close> for absent.
\<close>

theorem apiRequest_retry_after_zero:
  "waits (apiRequest retry_after_zero) = [1000] \<and>
   claimed_wait (retry_after_zero 0) BASE_API_DELAY = 0"
  by (simp add: api_eval claimed_wait_def)

subsection \<open>\<^verbatim>\<open>monitorTrade\<close>\<close>

lemmas monitor_eval =
  monitorTrade_def body_def primary_branch_def milestone_def reset_check_def exit_checks_def
  after_loop_def press_all_def SELL_TIMEOUT_def MONITOR_INTERVAL_def PROFIT_TARGET_2_def
  marketCapChange_def no_flags_def pass_def Let_def

text \<open>A key sets its flag and nothing else.\<close>

lemma press_all_fields [simp]:
  "endTime (press_all ks s) = endTime s"
  "lastMarketCap (press_all ks s) = lastMarketCap s"
  "sells (press_all ks s) = sells s"
proof -
  have "endTime (fold press ks s) = endTime s \<and> lastMarketCap (fold press ks s) = lastMarketCap s
        \<and> sells (fold press ks s) = sells s"
  proof (induction ks arbitrary: s)
    case Nil show ?case by simp
  next
    case (Cons k ks) show ?case by (cases k) (simp_all add: Cons.IH)
  qed
  then show "endTime (press_all ks s) = endTime s"
    "lastMarketCap (press_all ks s) = lastMarketCap s"
    "sells (press_all ks s) = sells s"
    by (simp_all add: press_all_def)
qed

lemma press_all_resetTimer [simp]:
  "resetTimer (press_all ks s) = (resetTimer s \<or> KeyR \<in> set ks)"
  unfolding press_all_def
proof (induction ks arbitrary: s)
  case Nil show ?case by simp
next
  case (Cons k ks) show ?case by (cases k) (auto simp: Cons.IH)
qed

lemma press_all_Nil [simp]: "press_all [] s = s"
  by (simp add: press_all_def)

text \<open>
  A pass whose quote is at least 25% above the entry market cap always ends the loop:
  line 271 sets \<^verbatim>\<open>continueTrade\<close>, and line 294 of the same pass finds it set.
\<close>

lemma profit_branch_breaks:
  assumes "info it = Some q" and "js_ge (marketCapChange (marketcap q) i) 25"
  shows "fst (body sbc i it s) = Break"
  using assms
  by (simp add: body_def primary_branch_def milestone_def reset_check_def exit_checks_def
        Let_def)

text \<open>
  Claim C1, evaluated on the code. Entry market cap 100 at clock 0; the quote of the first
  pass is 126 (+26%), a second pass at 5400 would see 160. The run sells 50%, records the
  milestone 126 and returns at the first pass, at clock 400: the second pass is never made,
  where the claim has the monitor keep polling.
\<close>

theorem first_target_ends_monitoring:
  "monitorTrade 15 100 0 no_flags [pass 0 126 5 400, pass 5400 160 5 5800] =
     Some (400, \<lparr>resetTimer = False, continueTrade = False, sellImmediately = False,
                 endTime = 120000, lastMarketCap = 126, sells = [0.50]\<rparr>)"
  by (simp add: monitor_eval)

text \<open>
  Claim C3, evaluated on the code. Entry market cap 100 at clock 0, deadline 120000. After 23
  uneventful passes 5200 ms apart, the pass that starts at 119600 sees the quote 80 (-20%)
  and takes the stop-loss branch; when line 311 reads the clock it shows 120100, and the
  monitor calls \<^verbatim>\<open>sellTokens\<close> a second time, with 75%, after the terminal transition.
\<close>

theorem sale_after_stop_loss:
  "monitorTrade 15 100 0 no_flags (polls 5200 23 @ [pass 119600 80 5 120100]) =
     Some (120100, \<lparr>resetTimer = False, continueTrade = False, sellImmediately = False,
                    endTime = 120000, lastMarketCap = 100, sells = [1.00, 0.75]\<rparr>) \<and>
   paced 0 (polls 5200 23 @ [pass 119600 80 5 120100])"
  by (simp add: monitor_eval polls_def upt_rec)

lemma stop_loss_branch:
  "js_le (marketCapChange (marketcap q) i) (- 10) \<Longrightarrow>
   primary_branch sbc i q s = (Break, s\<lparr>sells := sells s @ [1]\<rparr>)"
  by (cases "marketCapChange (marketcap q) i") (simp_all add: primary_branch_def)

text \<open>
  Claim C4. A pass that is entered before the deadline and whose quote is at most -10%
  against the entry market cap calls \<^verbatim>\<open>sellTokens\<close> with 100% and leaves the loop, whatever
  the bonding curve of the quote and the threshold \<open>sbc\<close> are; the monitor then returns
  after the check of line 311.
\<close>

theorem stop_loss_sells_all:
  assumes "t_loop it < endTime s" and "info it = Some q"
    and "js_le (marketCapChange (marketcap q) initialMarketCap) (- 10)"
  shows "body sbc initialMarketCap it (press_all (pressed it) s) =
           (Break, (press_all (pressed it) s)\<lparr>sells := sells s @ [1]\<rparr>) \<and>
         monitor_loop sbc initialMarketCap (it # its) s =
           Some (after_loop (t_exit it) ((press_all (pressed it) s)\<lparr>sells := sells s @ [1]\<rparr>))"
proof -
  have b: "body sbc initialMarketCap it (press_all (pressed it) s) =
           (Break, (press_all (pressed it) s)\<lparr>sells := sells s @ [1]\<rparr>)"
    using assms(2) stop_loss_branch [OF assms(3), of sbc "press_all (pressed it) s"]
    by (simp add: body_def)
  with assms(1) show ?thesis by (simp add: Let_def)
qed

theorem stop_loss_sells_all_witness:
  "monitor_loop 15 100 [pass 1000 80 20 1500]
     \<lparr>resetTimer = False, continueTrade = False, sellImmediately = False,
      endTime = 120000, lastMarketCap = 100, sells = []\<rparr> =
   Some (1500, \<lparr>resetTimer = False, continueTrade = False, sellImmediately = False,
                endTime = 120000, lastMarketCap = 100, sells = [1]\<rparr>)"
proof -
  let ?s = "\<lparr>resetTimer = False, continueTrade = False, sellImmediately = False,
      endTime = 120000, lastMarketCap = 100, sells = []\<rparr>"
  have 1: "t_loop (pass 1000 80 20 1500) < endTime ?s" by (simp add: pass_def)
  have 2: "info (pass 1000 80 20 1500) = Some \<lparr>ticker = ''TKN'', marketcap = 80, bondingCurve = 20\<rparr>"
    by (simp add: pass_def)
  have 3: "js_le (marketCapChange (marketcap \<lparr>ticker = ''TKN'', marketcap = 80, bondingCurve = 20\<rparr>) 100) (- 10)"
    by (simp add: marketCapChange_def)
  from stop_loss_sells_all [OF 1 2 3, of 15 "[]"]
  show ?thesis by (simp add: pass_def after_loop_def)
qed

text \<open>
  Claim C6. \<open>s\<close> is the state in which the pass reads the flags. When the pass has a quote
  and reaches line 288 (the stop-loss and the bonding-curve branch did not leave the loop)
  with \<^verbatim>\<open>resetTimer\<close> set, the deadline becomes the clock reading of line 290 plus 120000 ms
  and the flag is cleared; it is set afterwards only if R is pressed again. A pass that
  finds the flag clear leaves the deadline as it is.
\<close>

theorem resetTimer_consumed:
  "(info it = Some q \<and> fst (primary_branch sbc i q s) = Continue \<and> resetTimer s \<longrightarrow>
      endTime (snd (body sbc i it s)) = t_reset it + 2 * 60 * 1000 \<and>
      (resetTimer (snd (body sbc i it s)) \<longrightarrow> KeyR \<in> set (pressed_selling it))) \<and>
   (\<not> resetTimer s \<longrightarrow>
      endTime (snd (body sbc i it s)) = endTime s \<and>
      (resetTimer (snd (body sbc i it s)) \<longrightarrow> KeyR \<in> set (pressed_selling it)))"
  by (cases "primary_branch sbc i q s")
     (auto simp: body_def primary_branch_def milestone_def reset_check_def exit_checks_def
        SELL_TIMEOUT_def Let_def split: option.splits control.splits if_splits prod.splits)

theorem resetTimer_consumed_witness:
  "endTime (snd (body 15 100 (pass 1000 100 5 1500)
      \<lparr>resetTimer = True, continueTrade = False, sellImmediately = False,
       endTime = 120000, lastMarketCap = 100, sells = []\<rparr>)) = 121500 \<and>
   \<not> resetTimer (snd (body 15 100 (pass 1000 100 5 1500)
      \<lparr>resetTimer = True, continueTrade = False, sellImmediately = False,
       endTime = 120000, lastMarketCap = 100, sells = []\<rparr>)) \<and>
   endTime (snd (body 15 100 (pass 6500 100 5 7000)
      \<lparr>resetTimer = False, continueTrade = False, sellImmediately = False,
       endTime = 121500, lastMarketCap = 100, sells = []\<rparr>)) = 121500"
proof -
  let ?q = "\<lparr>ticker = ''TKN'', marketcap = 100, bondingCurve = 5\<rparr>"
  let ?s = "\<lparr>resetTimer = True, continueTrade = False, sellImmediately = False,
       endTime = 120000, lastMarketCap = 100, sells = []\<rparr>"
  let ?s' = "\<lparr>resetTimer = False, continueTrade = False, sellImmediately = False,
       endTime = 121500, lastMarketCap = 100, sells = []\<rparr>"
  have h: "info (pass 1000 100 5 1500) = Some ?q \<and> fst (primary_branch 15 100 ?q ?s) = Continue \<and>
           resetTimer ?s"
    by (simp add: pass_def primary_branch_def marketCapChange_def)
  have k: "KeyR \<notin> set (pressed_selling (pass 1000 100 5 1500))" by (simp add: pass_def)
  have n: "\<not> resetTimer ?s'" by simp
  from resetTimer_consumed [of "pass 1000 100 5 1500" ?q 15 100 ?s]
       resetTimer_consumed [of "pass 6500 100 5 7000" ?q 15 100 ?s'] h k n
  show ?thesis by (simp add: pass_def)
qed










text \<open>Passes in which nothing happens leave the state as it is.\<close>

lemma quiet_body:
  assumes "quiet sbc i (lastMarketCap s) it"
    and "\<not> resetTimer s" "\<not> continueTrade s" "\<not> sellImmediately s"
  shows "body sbc i it s = (Continue, s)"
  using assms
  by (auto simp: quiet_def body_def primary_branch_def milestone_def reset_check_def
        exit_checks_def Let_def split: option.splits)

lemma quiet_passes:
  assumes "\<not> resetTimer s" "\<not> continueTrade s" "\<not> sellImmediately s"
    and "\<forall>it \<in> set pre. quiet sbc i (lastMarketCap s) it \<and> t_loop it < endTime s"
  shows "monitor_loop sbc i (pre @ rest) s = monitor_loop sbc i rest s"
  using assms(4)
proof (induction pre)
  case Nil
  show ?case by simp
next
  case (Cons it pre)
  from Cons.prems have q: "quiet sbc i (lastMarketCap s) it" and t: "t_loop it < endTime s"
    and p: "pressed it = []"
    by (simp_all add: quiet_def)
  from quiet_body [OF q assms(1-3)] t p Cons show ?case by (simp add: Let_def)
qed

lemma deadline_pass:
  assumes "\<not> resetTimer s" "\<not> continueTrade s" "\<not> sellImmediately s"
    and "\<forall>x \<in> set pre. quiet sbc i (lastMarketCap s) x \<and> t_loop x < endTime s"
    and "pressed it = []" and "endTime s \<le> t_loop it" and "t_loop it \<le> t_exit it"
  shows "monitor_loop sbc i (pre @ it # rest) s = Some (t_exit it, s\<lparr>sells := sells s @ [0.75]\<rparr>)"
proof -
  have "monitor_loop sbc i (pre @ it # rest) s = monitor_loop sbc i (it # rest) s"
    by (rule quiet_passes [OF assms(1-4)])
  also have "\<dots> = Some (after_loop (t_exit it) s)"
    using assms(5,6) by (simp add: Let_def)
  also have "after_loop (t_exit it) s = (t_exit it, s\<lparr>sells := sells s @ [0.75]\<rparr>)"
    using assms(6,7) by (simp add: after_loop_def)
  finally show ?thesis .
qed

lemma paced_nth:
  "paced now its \<Longrightarrow> k < length its \<Longrightarrow>
   now + MONITOR_INTERVAL * int k \<le> t_loop (its ! k) \<and> t_loop (its ! k) \<le> t_exit (its ! k)"
proof (induction its arbitrary: now k)
  case Nil
  then show ?case by simp
next
  case (Cons it its)
  show ?case
  proof (cases k)
    case 0
    with Cons.prems show ?thesis by simp
  next
    case (Suc j)
    with Cons.prems have "paced (t_loop it + MONITOR_INTERVAL) its" "j < length its" "now \<le> t_loop it"
      by simp_all
    from Cons.IH [OF this(1,2)] this(3) Suc show ?thesis
      by (simp add: algebra_simps)
  qed
qed

lemma deadline_reached:
  assumes "paced now its" and "25 \<le> length its"
  obtains pre it rest where "its = pre @ it # rest"
    and "\<forall>x \<in> set pre. t_loop x < now + SELL_TIMEOUT"
    and "now + SELL_TIMEOUT \<le> t_loop it" and "t_loop it \<le> t_exit it"
proof -
  from assms(2) have k: "24 < length its" by simp
  from paced_nth [OF assms(1) k] have "now + SELL_TIMEOUT \<le> t_loop (its ! 24)"
    by (simp add: SELL_TIMEOUT_def MONITOR_INTERVAL_def)
  with k have "\<exists>x \<in> set its. now + SELL_TIMEOUT \<le> t_loop x"
    using nth_mem by blast
  from split_list_first_prop [OF this]
  obtain pre it rest where d: "its = pre @ it # rest" "now + SELL_TIMEOUT \<le> t_loop it"
    "\<forall>y \<in> set pre. \<not> now + SELL_TIMEOUT \<le> t_loop y"
    by blast
  have "it \<in> set its" using d(1) by simp
  then obtain j where "j < length its" "its ! j = it" by (auto simp: in_set_conv_nth)
  with paced_nth [OF assms(1), of j] have "t_loop it \<le> t_exit it" by simp
  with d that show thesis by (auto simp: not_le)
qed

text \<open>
  Claim C5, as the code has it. Take a run that starts with no flag set, in which no key is
  ever pressed and no quote trips a threshold, on a clock that does not run backwards, with
  at least 25 passes supplied (each pass sleeps at least 5 s, so the 25th is at or after the
  deadline). The monitor returns, having called \<^verbatim>\<open>sellTokens\<close> exactly once, with 75%, at
  the first pass whose loop condition reads the clock at or after the deadline
  \<open>now + SELL_TIMEOUT\<close>. It overshoots the deadline by less than the time since any earlier
  check of the loop condition.
\<close>

theorem timeout_exit:
  assumes "paced now its" and "25 \<le> length its"
    and "\<forall>x \<in> set its. quiet sbc initialMarketCap initialMarketCap x"
  shows "\<exists>pre it rest.
           its = pre @ it # rest \<and>
           (\<forall>x \<in> set pre. t_loop x < now + SELL_TIMEOUT) \<and>
           now + SELL_TIMEOUT \<le> t_loop it \<and>
           (\<forall>x \<in> set pre. t_loop it - (now + SELL_TIMEOUT) < t_loop it - t_loop x) \<and>
           monitorTrade sbc initialMarketCap now no_flags its =
             Some (t_exit it,
                   \<lparr>resetTimer = False, continueTrade = False, sellImmediately = False,
                    endTime = now + SELL_TIMEOUT, lastMarketCap = initialMarketCap,
                    sells = [0.75]\<rparr>)"
proof -
  from deadline_reached [OF assms(1,2)]
  obtain pre it rest where d: "its = pre @ it # rest"
    "\<forall>x \<in> set pre. t_loop x < now + SELL_TIMEOUT"
    "now + SELL_TIMEOUT \<le> t_loop it" "t_loop it \<le> t_exit it"
    by blast
  let ?s = "\<lparr>resetTimer = False, continueTrade = False, sellImmediately = False,
             endTime = now + SELL_TIMEOUT, lastMarketCap = initialMarketCap, sells = []\<rparr>"
  have q: "\<forall>x \<in> set pre. quiet sbc initialMarketCap (lastMarketCap ?s) x \<and> t_loop x < endTime ?s"
    using assms(3) d(1,2) by simp
  have p: "pressed it = []" using assms(3) d(1) by (simp add: quiet_def)
  have "monitor_loop sbc initialMarketCap (pre @ it # rest) ?s =
          Some (t_exit it, ?s\<lparr>sells := sells ?s @ [0.75]\<rparr>)"
    by (rule deadline_pass [OF _ _ _ q p]) (use d(3,4) in simp_all)
  then have m: "monitorTrade sbc initialMarketCap now no_flags its =
             Some (t_exit it,
                   \<lparr>resetTimer = False, continueTrade = False, sellImmediately = False,
                    endTime = now + SELL_TIMEOUT, lastMarketCap = initialMarketCap,
                    sells = [0.75]\<rparr>)"
    by (simp add: monitorTrade_def no_flags_def d(1))
  have "\<forall>x \<in> set pre. t_loop it - (now + SELL_TIMEOUT) < t_loop it - t_loop x"
    using d(2) by auto
  with d(1,2,3) m show ?thesis by blast
qed

lemma steady_paced: "paced 0 (polls 5000 25)"
  by (simp add: polls_def upt_rec pass_def MONITOR_INTERVAL_def)

lemma steady_quiet: "\<forall>x \<in> set (polls 5000 25). quiet 15 100 100 x"
  by (simp add: polls_def quiet_def pass_def marketCapChange_def PROFIT_TARGET_2_def)

theorem timeout_exit_witness:
  "\<exists>pre it rest.
     polls 5000 25 = pre @ it # rest \<and> 120000 \<le> t_loop it \<and>
     monitorTrade 15 100 0 no_flags (polls 5000 25) =
       Some (t_exit it,
             \<lparr>resetTimer = False, continueTrade = False, sellImmediately = False,
              endTime = 120000, lastMarketCap = 100, sells = [0.75]\<rparr>)"
proof -
  have l: "25 \<le> length (polls 5000 25)" by (simp add: polls_def)
  from timeout_exit [OF steady_paced l steady_quiet]
  show ?thesis by (simp add: SELL_TIMEOUT_def) blast
qed

text \<open>
  Claim C5 as stated fails when a quote is slow. The run starts at clock 0 and makes 24
  uneventful passes 5200 ms apart, the last at 119600; the quote of that pass takes 1000 ms,
  so after the sleep the loop condition is next checked at 125600. The trace is paced and
  quiet, and the 75% sale comes 5600 ms after the deadline 120000, more than one poll
  interval.
\<close>

theorem timeout_overshoot:
  "monitorTrade 15 100 0 no_flags (polls 5200 24 @ [pass 125600 100 5 125600]) =
     Some (125600, \<lparr>resetTimer = False, continueTrade = False, sellImmediately = False,
                    endTime = 120000, lastMarketCap = 100, sells = [0.75]\<rparr>) \<and>
   paced 0 (polls 5200 24 @ [pass 125600 100 5 125600]) \<and>
   list_all (quiet 15 100 100) (polls 5200 24 @ [pass 125600 100 5 125600]) \<and>
   125600 - (0 + SELL_TIMEOUT) > MONITOR_INTERVAL"
  by (simp add: monitor_eval polls_def upt_rec quiet_def)

subsection \<open>The scanner\<close>

lemma fire_due_inv: "scanner_inv st \<Longrightarrow> scanner_inv (fire_due now st)"
  by (cases "timers st") (auto simp: scanner_inv_def fire_due_def split: if_splits)

lemma on_message_inv:
  "scanner_inv st \<Longrightarrow> scanner_inv (fst (on_message max_bc now d q buy st))"
  by (auto simp: scanner_inv_def on_message_def split: option.splits if_splits)

lemma scanner_inv_run:
  "scanner_inv st \<Longrightarrow> scanner_inv (snd (scanner max_bc es st))"
proof (induction es arbitrary: st)
  case Nil
  then show ?case by simp
next
  case (Cons e es)
  let ?st' = "fst (on_message max_bc (arrival e) (payload e) (quote e) (buy_result e)
                 (fire_due (arrival e) st))"
  have "scanner_inv ?st'"
    by (rule on_message_inv [OF fire_due_inv [OF Cons.prems]])
  from Cons.IH [OF this] show ?case
    by (simp add: split_beta Let_def)
qed

lemma scanner_start_inv: "scanner_inv scanner_start"
  by (simp add: scanner_inv_def scanner_start_def)

text \<open>
  Claim C8. A message that arrives while \<^verbatim>\<open>cooldownActive\<close> is set is ignored: the state is
  unchanged and nothing is evaluated. A new-listing message that arrives at \<open>now\<close> with the
  cooldown clear sets \<^verbatim>\<open>cooldownActive\<close> and installs the callback due at \<open>now + 15000\<close>,
  whatever the quote \<open>q\<close> and the result \<open>buy\<close> of the purchase are; with no other callback
  pending the cooldown is then active at every time before \<open>now + 15000\<close> and clear from
  that time on.
\<close>

theorem cooldown_window:
  "(cooldownActive st \<longrightarrow> on_message max_bc now d q buy st = (st, Ignored)) \<and>
   (\<not> cooldownActive st \<and> d = Some msg \<and> channel msg = ''new_pairs'' \<longrightarrow>
      fst (on_message max_bc now d q buy st) =
        st\<lparr>cooldownActive := True, timers := timers st @ [now + 15000]\<rparr> \<and>
      snd (on_message max_bc now d q buy st) = evaluate max_bc q buy (new_mint msg) \<and>
      (scanner_inv st \<longrightarrow>
         (\<forall>t. cooldownActive (fire_due t (fst (on_message max_bc now d q buy st))) =
               (t < now + 15000))))"
  by (auto simp: on_message_def fire_due_def scanner_inv_def)

theorem cooldown_window_witness:
  "on_message 10 14999 (Some \<lparr>channel = ''new_pairs'', new_mint = ''B''\<rparr>) None (Some ''h'')
      \<lparr>cooldownActive = True, timers = [15000]\<rparr> =
     (\<lparr>cooldownActive = True, timers = [15000]\<rparr>, Ignored) \<and>
   fst (on_message 10 0 (Some \<lparr>channel = ''new_pairs'', new_mint = ''A''\<rparr>) None None scanner_start) =
     \<lparr>cooldownActive = True, timers = [15000]\<rparr> \<and>
   cooldownActive (fire_due 14999
     (fst (on_message 10 0 (Some \<lparr>channel = ''new_pairs'', new_mint = ''A''\<rparr>) None None scanner_start))) \<and>
   \<not> cooldownActive (fire_due 15000
     (fst (on_message 10 0 (Some \<lparr>channel = ''new_pairs'', new_mint = ''A''\<rparr>) None None scanner_start))) \<and>
   scanner 10 [listing 0 ''A'' 50 None, listing 14999 ''B'' 5 (Some ''h''),
               listing 15000 ''C'' 5 None, listing 30000 ''D'' 5 (Some ''h'')] scanner_start =
     ([NotEligible, Ignored, BuyFailed, Monitored ''D'' 100 5],
      \<lparr>cooldownActive = True, timers = [45000]\<rparr>)"
proof -
  let ?a = "\<lparr>channel = ''new_pairs'', new_mint = ''A''\<rparr>"
  let ?b = "\<lparr>channel = ''new_pairs'', new_mint = ''B''\<rparr>"
  let ?busy = "\<lparr>cooldownActive = True, timers = [15000]\<rparr>"
  have 1: "cooldownActive ?busy" by simp
  have 2: "\<not> cooldownActive scanner_start \<and> Some ?a = Some ?a \<and> channel ?a = ''new_pairs''"
    by (simp add: scanner_start_def)
  have 3: "scanner 10 [listing 0 ''A'' 50 None, listing 14999 ''B'' 5 (Some ''h''),
               listing 15000 ''C'' 5 None, listing 30000 ''D'' 5 (Some ''h'')] scanner_start =
     ([NotEligible, Ignored, BuyFailed, Monitored ''D'' 100 5],
      \<lparr>cooldownActive = True, timers = [45000]\<rparr>)"
    by (simp add: listing_def scanner_start_def on_message_def fire_due_def evaluate_def
          truthy_hash_def)
  from cooldown_window [of ?busy 10 14999 "Some ?b" None "Some ''h''" ?b] 1
  have A: "on_message 10 14999 (Some ?b) None (Some ''h'') ?busy = (?busy, Ignored)"
    by blast
  from cooldown_window [of scanner_start 10 0 "Some ?a" None None ?a] 2 scanner_start_inv
  have B: "fst (on_message 10 0 (Some ?a) None None scanner_start) =
             scanner_start\<lparr>cooldownActive := True, timers := timers scanner_start @ [0 + 15000]\<rparr>"
    and C: "\<And>t. cooldownActive (fire_due t (fst (on_message 10 0 (Some ?a) None None scanner_start))) =
               (t < 0 + 15000)"
    by blast+
  from B have B': "fst (on_message 10 0 (Some ?a) None None scanner_start) = ?busy"
    by (simp add: scanner_start_def)
  from C [of 14999] C [of 15000] A B' 3 show ?thesis by simp
qed

end
